theory Spec2Isabelle
  imports Main "HOL-Library.Multiset"
begin

section \<open>Claim-history reconstruction of the claims web client\<close>

text \<open>
  The history panel of the provider portal scans the event log of the claim engine
  for the connected account: \<open>chunkedQueryFilter\<close> walks a block range in chunks
  and retries a failing chunk with half the span, \<open>load\<close> resolves the range from the
  text box, the stored cursor and the head block, builds the rows, sorts them and
  advances the cursor. The definitions follow the variant of the application that has
  the chunked helper (with \<open>LOOKBACK = 9_000\<close>).
\<close>

subsection \<open>JavaScript values used by the panel\<close>

text \<open>
  A thrown value: the class is what the specification distinguishes (the code never
  inspects it), the message is what \<open>e?.message\<close> reads (empty when absent).
\<close>

datatype errclass = RangeRejected | Connectivity | MalformedResponse | AbiMismatch

datatype error = Error (cls: errclass) (message: string)

text \<open>
  Block numbers are JavaScript numbers holding integers, or \<open>NaN\<close> when a text does
  not parse.
\<close>

datatype jsnum = NaN | Num int

definition truthy :: "jsnum \<Rightarrow> bool" where
  "truthy x = (case x of NaN \<Rightarrow> False | Num n \<Rightarrow> n \<noteq> 0)"

definition digitChar :: "nat \<Rightarrow> char" where
  "digitChar d = char_of (48 + d)"

function decimal :: "nat \<Rightarrow> string" where
  "decimal n = (if n < 10 then [digitChar n] else decimal (n div 10) @ [digitChar (n mod 10)])"
  by pat_completeness auto
termination
  by (relation "measure (\<lambda>n. n)") auto

text \<open>
  \<open>String(n)\<close> and \<open>n.toString()\<close> of an integer: its decimal numeral (what
  JavaScript prints for a big integer, and for a number below \<open>10^21\<close>).
\<close>

definition String :: "int \<Rightarrow> string" where
  "String n = (if n < 0 then CHR ''-'' # decimal (nat (- n)) else decimal (nat n))"

definition isDigit :: "char \<Rightarrow> bool" where
  "isDigit c = (48 \<le> (of_char c :: nat) \<and> (of_char c :: nat) \<le> 57)"

definition digitsValue :: "string \<Rightarrow> nat" where
  "digitsValue ds = foldl (\<lambda>acc c. 10 * acc + (of_char c - 48)) 0 ds"

text \<open>
  \<open>Number(s)\<close> on the texts the panel meets: the empty text is 0, an optionally signed
  decimal numeral is its value, a text that is no number is \<open>NaN\<close>. The other numeric
  forms of JavaScript (surrounding blanks, fractions, exponents, radix prefixes,
  \<open>Infinity\<close>) are outside this model.
\<close>

definition Number :: "string \<Rightarrow> jsnum" where
  "Number s =
     (if s = [] then Num 0
      else if hd s = CHR ''-'' then
        (if tl s \<noteq> [] \<and> list_all isDigit (tl s) then Num (- int (digitsValue (tl s))) else NaN)
      else if hd s = CHR ''+'' then
        (if tl s \<noteq> [] \<and> list_all isDigit (tl s) then Num (int (digitsValue (tl s))) else NaN)
      else if list_all isDigit s then Num (int (digitsValue s)) else NaN)"

definition toLowerChar :: "char \<Rightarrow> char" where
  "toLowerChar c =
     (if 65 \<le> (of_char c :: nat) \<and> (of_char c :: nat) \<le> 90
      then char_of ((of_char c :: nat) + 32) else c)"

text \<open>\<open>toLowerCase\<close> on the ASCII texts of hex addresses.\<close>

definition toLowerCase :: "string \<Rightarrow> string" where
  "toLowerCase s = map toLowerChar s"

subsection \<open>The event source\<close>

text \<open>
  \<open>c.queryFilter(filter, start, end)\<close> is a request to the node: it answers with
  logs or throws, and may change the state of the world. The contract together with
  the filter is a source: a function of the state and the two bounds.
\<close>

type_synonym ('s, 'l) source = "'s \<Rightarrow> int \<Rightarrow> int \<Rightarrow> (error + 'l list) \<times> 's"

text \<open>A source whose answer depends on the requested range only.\<close>

definition stateless :: "(int \<Rightarrow> int \<Rightarrow> error + 'l list) \<Rightarrow> (unit, 'l) source" where
  "stateless q = (\<lambda>s a b. (q a b, s))"

text \<open>
  A source that also records every request it receives, in order, with its bounds and
  whether it was answered.
\<close>

type_synonym trace = "(int \<times> int \<times> bool) list"

definition answered :: "error + 'l list \<Rightarrow> bool" where
  "answered r = (case r of Inl e \<Rightarrow> False | Inr logs \<Rightarrow> True)"

definition traced :: "('s, 'l) source \<Rightarrow> ('s \<times> trace, 'l) source" where
  "traced c = (\<lambda>(s, tr) a b.
     case c s a b of (r, s') \<Rightarrow> (r, (s', tr @ [(a, b, answered r)])))"

definition okRanges :: "trace \<Rightarrow> (int \<times> int) list" where
  "okRanges tr = map (\<lambda>(a, b, ok). (a, b)) (filter (\<lambda>(a, b, ok). ok) tr)"

subsection \<open>chunkedQueryFilter\<close>

text \<open>
  The \<open>while\<close> loop of \<open>chunkedQueryFilter\<close> with its variables \<open>start\<close> and
  \<open>out\<close>; the \<open>catch\<close> branch calls the function again on the failed chunk with
  half the span, which is the same loop started at \<open>start\<close> with an empty \<open>out\<close>.
  A run that never returns has the value \<open>None\<close>; a thrown error is \<open>Inl\<close>.
\<close>

partial_function (option) cqf_loop ::
  "('s, 'l) source \<Rightarrow> int \<Rightarrow> int \<Rightarrow> int \<Rightarrow> 'l list \<Rightarrow> 's \<Rightarrow> ((error + 'l list) \<times> 's) option"
where
  "cqf_loop c to maxSpan start out s =
    (if start \<le> to then
       (let end = min (start + maxSpan) to in
        case c s start end of
          (Inr logs, s1) \<Rightarrow> cqf_loop c to maxSpan (end + 1) (out @ logs) s1
        | (Inl e, s1) \<Rightarrow>
            if maxSpan \<le> 200 then Some (Inl e, s1)
            else (let smaller = maxSpan div 2 in
                  Option.bind (cqf_loop c end smaller start [] s1)
                   (\<lambda>(r, s2). case r of
                        Inl e' \<Rightarrow> Some (Inl e', s2)
                      | Inr more \<Rightarrow> cqf_loop c to maxSpan (end + 1) (out @ more) s2)))
     else Some (Inr out, s))"

declare cqf_loop.simps [code]

definition chunkedQueryFilter ::
  "('s, 'l) source \<Rightarrow> int \<Rightarrow> int \<Rightarrow> int \<Rightarrow> 's \<Rightarrow> ((error + 'l list) \<times> 's) option"
where
  "chunkedQueryFilter c from to maxSpan s = cqf_loop c to maxSpan from [] s"


subsection \<open>Logs and rows\<close>

text \<open>
  The arguments of a decoded log, by the two event signatures of the engine's ABI
  (\<open>ClaimPaid\<close> and \<open>ClaimRejected\<close>); a log that could not be decoded has no
  \<open>args\<close>. The fields carry the suffix \<open>_arg\<close> to keep them apart from the row's.
\<close>

record commonArgs =
  claimKey_arg :: string
  provider_arg :: string
  code_arg :: nat
  year_arg :: nat

record paidArgs = commonArgs +
  id_arg :: nat
  amount_arg :: nat
  visitIndex_arg :: nat

record rejectedArgs = commonArgs +
  reason_arg :: string

record 'a log =
  args :: "'a option"
  transactionHash :: string
  blockNumber :: int

datatype kind = Paid | Rejected

text \<open>
  A row of the table: an object with the keys the code writes; a key the object does
  not have is \<open>None\<close>.
\<close>

record row =
  kind :: kind
  id_row :: string
  code :: nat
  year :: nat
  amount :: "nat option"
  visitIndex :: "nat option"
  reason :: "string option"
  tx :: string
  block :: int

text \<open>The object pushed for a paid log \<open>l\<close> with arguments \<open>a\<close>, and for a rejected one.\<close>

definition paidRow :: "paidArgs log \<Rightarrow> paidArgs \<Rightarrow> row" where
  "paidRow l a =
     \<lparr>kind = Paid, id_row = decimal (id_arg a), code = code_arg a, year = year_arg a,
      amount = Some (amount_arg a), visitIndex = Some (visitIndex_arg a),
      reason = None, tx = transactionHash l, block = blockNumber l\<rparr>"

definition rejectedRow :: "rejectedArgs log \<Rightarrow> rejectedArgs \<Rightarrow> row" where
  "rejectedRow l a =
     \<lparr>kind = Rejected, id_row = ''-'', code = code_arg a, year = year_arg a,
      amount = None, visitIndex = None,
      reason = Some (reason_arg a), tx = transactionHash l, block = blockNumber l\<rparr>"

text \<open>
  The two \<open>for\<close> loops of \<open>load\<close>: a log without \<open>args\<close>, or whose provider in
  lower case differs from \<open>providerAddr\<close>, is skipped (\<open>continue\<close>); the row of any
  other log is pushed.
\<close>

fun pushPaid :: "string \<Rightarrow> paidArgs log list \<Rightarrow> row list \<Rightarrow> row list" where
  "pushPaid providerAddr [] rows = rows"
| "pushPaid providerAddr (l # ls) rows =
     (case args l of
        None \<Rightarrow> pushPaid providerAddr ls rows
      | Some a \<Rightarrow>
          if toLowerCase (provider_arg a) \<noteq> providerAddr then pushPaid providerAddr ls rows
          else pushPaid providerAddr ls (rows @ [paidRow l a]))"

fun pushRejected :: "string \<Rightarrow> rejectedArgs log list \<Rightarrow> row list \<Rightarrow> row list" where
  "pushRejected providerAddr [] rows = rows"
| "pushRejected providerAddr (l # ls) rows =
     (case args l of
        None \<Rightarrow> pushRejected providerAddr ls rows
      | Some a \<Rightarrow>
          if toLowerCase (provider_arg a) \<noteq> providerAddr then pushRejected providerAddr ls rows
          else pushRejected providerAddr ls (rows @ [rejectedRow l a]))"

text \<open>
  \<open>rows.sort((a,b)=>a.block-b.block)\<close> followed by \<open>rows.reverse()\<close>: the sort of
  arrays is stable, and the stable sort of a list by a key is unique.
\<close>

definition sortReverse :: "row list \<Rightarrow> row list" where
  "sortReverse rows = rev (sort_key block rows)"

subsection \<open>load\<close>

text \<open>
  The properties of the panel: the engine contract (absent, or present with or without
  the two event filters), the connected account, and the read provider (absent, or
  present with the outcome of \<open>getBlockNumber()\<close>).
\<close>

record props =
  engineR :: "bool option"
  provider :: string
  readProvider :: "(error + int) option"

text \<open>
  The state \<open>load\<close> reads and writes: the panel's state variables and the item
  \<open>claims.fromBlock\<close> of the local storage (\<open>None\<close> when it was never stored).
\<close>

record hstate =
  items :: "row list"
  fromBlock :: string
  loading :: bool
  err :: string
  storage :: "string option"

definition LOOKBACK :: int where
  "LOOKBACK = 9000"

text \<open>
  The lower bound (\<open>manual\<close> is the text \<open>fromBlock\<close> of the box, \<open>item\<close> the
  stored cursor): the text box when it is not empty, else the stored cursor when it is
  truthy, else the head minus the look-back window. The window is a parameter: the
  copies of the panel differ in it.
\<close>

definition baseFrom :: "int \<Rightarrow> string \<Rightarrow> string option \<Rightarrow> int \<Rightarrow> jsnum" where
  "baseFrom lookback manual item to =
     (let saved = (case item of None \<Rightarrow> Num 0 | Some v \<Rightarrow> if v = [] then Num 0 else Number v)
      in if manual \<noteq> [] then Number manual
         else if truthy saved then saved
         else Num (max (to - lookback) 0))"

text \<open>The \<open>catch\<close> and \<open>finally\<close> blocks of \<open>load\<close>.\<close>

definition failed :: "error \<Rightarrow> hstate \<Rightarrow> hstate" where
  "failed e st =
     st\<lparr>err := (if message e = [] then ''Failed to load history'' else message e),
        loading := False\<rparr>"

text \<open>
  The end of the \<open>try\<close> block once both chunked queries have returned: the rows are
  built, sorted and shown, and the cursor is stored as \<open>String(to + 1)\<close>.
\<close>

definition completed ::
  "string \<Rightarrow> int \<Rightarrow> paidArgs log list \<Rightarrow> rejectedArgs log list \<Rightarrow> hstate \<Rightarrow> hstate"
where
  "completed providerAddr to paidLogs rejLogs st =
     st\<lparr>items := sortReverse (pushRejected providerAddr rejLogs (pushPaid providerAddr paidLogs [])),
        storage := Some (String (to + 1)),
        loading := False\<rparr>"

text \<open>
  \<open>load\<close>. The two chunked queries run under \<open>Promise.all\<close>, each against its own
  source, so the requests of one do not change the answers of the other; both run to
  their end, and the model reports the error of the paid query when both fail (which of
  the two the browser reports depends on timing). With a lower bound that is \<open>NaN\<close>
  the loop condition \<open>start <= to\<close> is false at once: no request, no logs.
\<close>

definition load ::
  "int \<Rightarrow> props \<Rightarrow> ('sp, paidArgs log) source \<Rightarrow> ('sr, rejectedArgs log) source \<Rightarrow>
   hstate \<times> 'sp \<times> 'sr \<Rightarrow> (hstate \<times> 'sp \<times> 'sr) option"
where
  "load lookback p paidSrc rejSrc w =
     (case w of (st, sp, sr) \<Rightarrow>
      (case (engineR p, readProvider p) of
         (Some hasFilters, Some getBlockNumber) \<Rightarrow>
           (let st0 = st\<lparr>loading := True, err := []\<rparr>;
                providerAddr = toLowerCase (provider p)
            in case getBlockNumber of
                 Inl e \<Rightarrow> Some (failed e st0, sp, sr)
               | Inr to \<Rightarrow>
                   if \<not> hasFilters
                   then Some (failed (Error AbiMismatch ''Event filters missing (ABI mismatch?)'') st0,
                              sp, sr)
                   else
                     Option.bind
                       (case baseFrom lookback (fromBlock st) (storage st) to of
                          NaN \<Rightarrow> Some ((Inr [], sp), (Inr [], sr))
                        | Num from \<Rightarrow>
                            Option.bind (chunkedQueryFilter paidSrc from to 9500 sp) (\<lambda>rp.
                            Option.bind (chunkedQueryFilter rejSrc from to 9500 sr) (\<lambda>rr.
                              Some (rp, rr))))
                       (\<lambda>((rp, sp'), (rr, sr')).
                          case rp of
                            Inl e \<Rightarrow> Some (failed e st0, sp', sr')
                          | Inr paidLogs \<Rightarrow>
                              (case rr of
                                 Inl e \<Rightarrow> Some (failed e st0, sp', sr')
                               | Inr rejLogs \<Rightarrow>
                                   Some (completed providerAddr to paidLogs rejLogs st0,
                                         sp', sr'))))
       | _ \<Rightarrow> Some w))"

subsection \<open>Runs of the loop\<close>

text \<open>
  The runs of \<open>cqf_loop\<close> that return, as a relation between the loop's variables and
  its outcome: one rule for the exit of the loop, one for an answered chunk, one for a
  failure at a span of at most 200, and two for a retried chunk (the retry throws, or
  it returns and the loop goes on).
\<close>

inductive cqf_run ::
  "('s, 'l) source \<Rightarrow> int \<Rightarrow> int \<Rightarrow> int \<Rightarrow> 'l list \<Rightarrow> 's \<Rightarrow> error + 'l list \<Rightarrow> 's \<Rightarrow> bool"
  for c :: "('s, 'l) source"
where
  finished: "\<not> start \<le> to \<Longrightarrow> cqf_run c to m start out s (Inr out) s"
| chunk_ok:
    "start \<le> to \<Longrightarrow> c s start (min (start + m) to) = (Inr logs, s1) \<Longrightarrow>
     cqf_run c to m (min (start + m) to + 1) (out @ logs) s1 r s' \<Longrightarrow>
     cqf_run c to m start out s r s'"
| at_floor:
    "start \<le> to \<Longrightarrow> c s start (min (start + m) to) = (Inl e, s1) \<Longrightarrow> m \<le> 200 \<Longrightarrow>
     cqf_run c to m start out s (Inl e) s1"
| retry_failed:
    "start \<le> to \<Longrightarrow> c s start (min (start + m) to) = (Inl e, s1) \<Longrightarrow> 200 < m \<Longrightarrow>
     cqf_run c (min (start + m) to) (m div 2) start [] s1 (Inl e') s2 \<Longrightarrow>
     cqf_run c to m start out s (Inl e') s2"
| retry_ok:
    "start \<le> to \<Longrightarrow> c s start (min (start + m) to) = (Inl e, s1) \<Longrightarrow> 200 < m \<Longrightarrow>
     cqf_run c (min (start + m) to) (m div 2) start [] s1 (Inr mo) s2 \<Longrightarrow>
     cqf_run c to m (min (start + m) to + 1) (out @ mo) s2 r s' \<Longrightarrow>
     cqf_run c to m start out s r s'"

code_pred cqf_run .

subsection \<open>Notions used to state the properties\<close>

text \<open>
  \<open>tiles m a b rs\<close>: the ranges \<open>rs\<close> follow each other from \<open>a\<close> to \<open>b\<close> without
  gap or overlap, none is empty and none is wider than \<open>m\<close>.
\<close>

fun tiles :: "int \<Rightarrow> int \<Rightarrow> int \<Rightarrow> (int \<times> int) list \<Rightarrow> bool" where
  "tiles m a b [] = (b < a)"
| "tiles m a b ((x, y) # rs) = (x = a \<and> a \<le> y \<and> y \<le> b \<and> y - x \<le> m \<and> tiles m (y + 1) b rs)"

definition inRange :: "int \<Rightarrow> int \<Rightarrow> 'a log \<Rightarrow> bool" where
  "inRange a b l = (a \<le> blockNumber l \<and> blockNumber l \<le> b)"

text \<open>
  The simulated source of the specification's test properties: it holds the logs
  \<open>chain\<close>, rejects a request wider than \<open>W\<close> and answers any other with the logs of
  the requested blocks.
\<close>

definition rangeSource :: "int \<Rightarrow> 'a log list \<Rightarrow> int \<Rightarrow> int \<Rightarrow> error + 'a log list" where
  "rangeSource W chain a b =
     (if W < b - a then Inl (Error RangeRejected ''block range too large'')
      else Inr (filter (inRange a b) chain))"


text \<open>Four logs at the blocks 7, 250, 251 and 900, for the examples.\<close>

definition chain4 :: "unit log list" where
  "chain4 = [\<lparr>args = None, transactionHash = ''0xa1'', blockNumber = 7\<rparr>,
             \<lparr>args = None, transactionHash = ''0xa2'', blockNumber = 250\<rparr>,
             \<lparr>args = None, transactionHash = ''0xa3'', blockNumber = 251\<rparr>,
             \<lparr>args = None, transactionHash = ''0xa4'', blockNumber = 900\<rparr>]"

text \<open>
  The invariant of a row: the fields of its kind are present and those of the other
  kind are absent.
\<close>

definition exclusive :: "row \<Rightarrow> bool" where
  "exclusive r =
     (case kind r of
        Paid \<Rightarrow> amount r \<noteq> None \<and> visitIndex r \<noteq> None \<and> reason r = None
      | Rejected \<Rightarrow> reason r \<noteq> None \<and> amount r = None \<and> visitIndex r = None)"

text \<open>A log is of account \<open>A\<close> when it has arguments and its provider equals \<open>A\<close> up to case.\<close>

definition matches :: "string \<Rightarrow> ('z commonArgs_scheme) log \<Rightarrow> bool" where
  "matches A l = (case args l of None \<Rightarrow> False | Some a \<Rightarrow> toLowerCase (provider_arg a) = toLowerCase A)"

text \<open>A source that fails every request with the same error.\<close>

definition unavailable :: "error \<Rightarrow> int \<Rightarrow> int \<Rightarrow> error + 'l list" where
  "unavailable e a b = Inl e"

text \<open>
  Example data: logs of the two kinds, a chain of paid logs at the blocks 5, 2, 3, 9 and
  of rejected logs at the blocks 2, 4 for the accounts \<open>0xabc\<close> (in three spellings)
  and \<open>0xdef\<close>, an empty panel, and the properties of a panel with both
  collaborators present.
\<close>

definition paidLog :: "string \<Rightarrow> nat \<Rightarrow> int \<Rightarrow> paidArgs log" where
  "paidLog prov i b =
     \<lparr>args = Some \<lparr>claimKey_arg = ''0x6b'', provider_arg = prov, code_arg = 1, year_arg = 2025,
                    id_arg = i, amount_arg = 25, visitIndex_arg = 1\<rparr>,
      transactionHash = ''0x7c'', blockNumber = b\<rparr>"

definition rejectedLog :: "string \<Rightarrow> int \<Rightarrow> rejectedArgs log" where
  "rejectedLog prov b =
     \<lparr>args = Some \<lparr>claimKey_arg = ''0x6b'', provider_arg = prov, code_arg = 2, year_arg = 2025,
                    reason_arg = ''bank underfunded''\<rparr>,
      transactionHash = ''0x7d'', blockNumber = b\<rparr>"

definition paidChain :: "paidArgs log list" where
  "paidChain = [paidLog ''0xabc'' 1 5, paidLog ''0xAbC'' 2 2, paidLog ''0xdef'' 7 3, paidLog ''0xabc'' 3 9]"

definition rejectedChain :: "rejectedArgs log list" where
  "rejectedChain = [rejectedLog ''0xABC'' 2, rejectedLog ''0xdef'' 4]"

definition panel0 :: hstate where
  "panel0 = \<lparr>items = [], fromBlock = [], loading = False, err = [], storage = None\<rparr>"

definition portal :: "string \<Rightarrow> int \<Rightarrow> props" where
  "portal account head = \<lparr>engineR = Some True, provider = account, readProvider = Some (Inr head)\<rparr>"

section \<open>Properties\<close>

declare decimal.simps [simp del]

subsection \<open>The loop, one step at a time\<close>

lemma cqf_done: "\<not> start \<le> to \<Longrightarrow> cqf_loop c to m start out s = Some (Inr out, s)"
  by (subst cqf_loop.simps) simp

lemma cqf_ok:
  "start \<le> to \<Longrightarrow> c s start (min (start + m) to) = (Inr logs, s1) \<Longrightarrow>
   cqf_loop c to m start out s = cqf_loop c to m (min (start + m) to + 1) (out @ logs) s1"
  by (subst cqf_loop.simps) simp

lemma cqf_floor:
  "start \<le> to \<Longrightarrow> c s start (min (start + m) to) = (Inl e, s1) \<Longrightarrow> m \<le> 200 \<Longrightarrow>
   cqf_loop c to m start out s = Some (Inl e, s1)"
  by (subst cqf_loop.simps) simp

lemma cqf_retry_fail:
  "start \<le> to \<Longrightarrow> c s start (min (start + m) to) = (Inl e, s1) \<Longrightarrow> 200 < m \<Longrightarrow>
   cqf_loop c (min (start + m) to) (m div 2) start [] s1 = Some (Inl e', s2) \<Longrightarrow>
   cqf_loop c to m start out s = Some (Inl e', s2)"
  by (subst cqf_loop.simps) simp

lemma cqf_retry_ok:
  "start \<le> to \<Longrightarrow> c s start (min (start + m) to) = (Inl e, s1) \<Longrightarrow> 200 < m \<Longrightarrow>
   cqf_loop c (min (start + m) to) (m div 2) start [] s1 = Some (Inr mo, s2) \<Longrightarrow>
   cqf_loop c to m start out s = cqf_loop c to m (min (start + m) to + 1) (out @ mo) s2"
  by (subst cqf_loop.simps) simp

lemma cqf_induct [consumes 1, case_names step]:
  assumes m: "0 \<le> (m::int)"
    and step: "\<And>to m start.
       0 \<le> m \<Longrightarrow>
       (start \<le> to \<Longrightarrow> P to m (min (start + m) to + 1)) \<Longrightarrow>
       (start \<le> to \<Longrightarrow> 200 < m \<Longrightarrow> P (min (start + m) to) (m div 2) start) \<Longrightarrow>
       P to m start"
  shows "P to m start"
proof -
  have "\<forall>to start. P to m start" using m
  proof (induction "nat m" arbitrary: m rule: less_induct)
    case less
    have inner: "P to m start" for to start
    proof (induction "nat (to + 1 - start)" arbitrary: start rule: less_induct)
      case less': less
      show ?case
      proof (rule step)
        show "0 \<le> m" by (rule less.prems)
      next
        assume "start \<le> to"
        with less.prems show "P to m (min (start + m) to + 1)"
          by (intro less') (auto simp: min_def)
      next
        assume "start \<le> to" "200 < m"
        then have "nat (m div 2) < nat m" "0 \<le> m div 2" by auto
        with less.hyps show "P (min (start + m) to) (m div 2) start" by blast
      qed
    qed
    then show ?case by blast
  qed
  then show ?thesis by blast
qed

lemma cqf_run_sound: "cqf_run c to m start out s r s' \<Longrightarrow> cqf_loop c to m start out s = Some (r, s')"
proof (induction rule: cqf_run.induct)
  case (finished start to m out s)
  then show ?case by (simp add: cqf_done)
next
  case (chunk_ok start to s m logs s1 out r s')
  then show ?case by (simp add: cqf_ok)
next
  case (at_floor start to s m e s1 out)
  then show ?case by (simp add: cqf_floor)
next
  case (retry_failed start to s m e s1 e' s2 out)
  then show ?case by (simp add: cqf_retry_fail)
next
  case (retry_ok start to s m e s1 mo s2 out r s')
  then show ?case by (simp add: cqf_retry_ok)
qed

lemma cqf_run_total:
  assumes "0 \<le> m"
  shows "\<exists>r s'. cqf_run c to m start out s r s'"
  using assms
proof (induction to m start arbitrary: out s rule: cqf_induct)
  case (step to m start)
  show ?case
  proof (cases "start \<le> to")
    case False
    then show ?thesis by (blast intro: cqf_run.finished)
  next
    case True
    obtain r1 s1 where q: "c s start (min (start + m) to) = (r1, s1)" by fastforce
    show ?thesis
    proof (cases r1)
      case (Inr logs)
      with step.IH(1)[OF True, of "out @ logs" s1] q True show ?thesis
        by (blast intro: cqf_run.chunk_ok)
    next
      case (Inl e)
      show ?thesis
      proof (cases "m \<le> 200")
        case True': True
        with q Inl True show ?thesis by (blast intro: cqf_run.at_floor)
      next
        case False
        then have big: "200 < m" by simp
        from step.IH(2)[OF True big, of "[]" s1]
        obtain r2 s2 where run2: "cqf_run c (min (start + m) to) (m div 2) start [] s1 r2 s2"
          by blast
        show ?thesis
        proof (cases r2)
          case inner: (Inl e')
          with run2 q Inl True big show ?thesis by (blast intro: cqf_run.retry_failed)
        next
          case inner: (Inr mo)
          from step.IH(1)[OF True, of "out @ mo" s2]
          obtain r s' where "cqf_run c to m (min (start + m) to + 1) (out @ mo) s2 r s'" by blast
          with run2 inner q Inl True big show ?thesis by (blast intro: cqf_run.retry_ok)
        qed
      qed
    qed
  qed
qed

lemma okRanges_simps [simp]:
  "okRanges [] = []"
  "okRanges ((a, b, True) # tr) = (a, b) # okRanges tr"
  "okRanges ((a, b, False) # tr) = okRanges tr"
  "okRanges (tr @ tr') = okRanges tr @ okRanges tr'"
  by (simp_all add: okRanges_def)


lemma answered_simps [simp]: "answered (Inr x) = True" "answered (Inl e) = False"
  by (simp_all add: answered_def)

lemma traced_snd:
  "traced c st a b = (r, st1) \<Longrightarrow> snd st1 = snd st @ [(a, b, answered r)]"
  by (auto simp: traced_def split: prod.splits)



lemma cqf_run_all_answered:
  "cqf_run (traced c) to m start out st r st' \<Longrightarrow>
   \<exists>tr'. snd st' = snd st @ tr' \<and>
     ((\<forall>q\<in>set tr'. snd (snd q)) \<longrightarrow> (\<forall>q\<in>set tr'. fst (snd q) = min (fst q + m) to))"
proof (induction rule: cqf_run.induct)
  case (finished start to m out s)
  then show ?case by simp
next
  case (chunk_ok start to s m logs s1 out r s')
  then obtain tr' where
    a: "snd s' = snd s1 @ tr'"
    and b: "(\<forall>q\<in>set tr'. snd (snd q)) \<longrightarrow> (\<forall>q\<in>set tr'. fst (snd q) = min (fst q + m) to)"
    by blast
  from traced_snd[OF chunk_ok.hyps(2)] a
  have "snd s' = snd s @ ((start, min (start + m) to, True) # tr')" by simp
  with b show ?case by auto
next
  case (at_floor start to s m e s1 out)
  from traced_snd[OF at_floor.hyps(2)] show ?case by auto
next
  case (retry_failed start to s m e s1 e' s2 out)
  then obtain tr' where "snd s2 = snd s1 @ tr'" by blast
  with traced_snd[OF retry_failed.hyps(2)]
  have "snd s2 = snd s @ ((start, min (start + m) to, False) # tr')" by simp
  then show ?case by auto
next
  case (retry_ok start to s m e s1 mo s2 out r s')
  then obtain tr2 tr' where "snd s2 = snd s1 @ tr2" "snd s' = snd s2 @ tr'" by blast
  with traced_snd[OF retry_ok.hyps(2)]
  have "snd s' = snd s @ ((start, min (start + m) to, False) # tr2 @ tr')" by simp
  then show ?case by auto
qed




subsection \<open>The answered requests tile the range\<close>

lemma tiles_mono: "tiles m a b rs \<Longrightarrow> m \<le> m' \<Longrightarrow> tiles m' a b rs"
  by (induction m a b rs rule: tiles.induct) auto

lemma tiles_append:
  "tiles m a b xs \<Longrightarrow> a \<le> b \<Longrightarrow> b \<le> c \<Longrightarrow> tiles m (b + 1) c ys \<Longrightarrow> tiles m a c (xs @ ys)"
proof (induction m a b xs rule: tiles.induct)
  case (1 m a b)
  then show ?case by simp
next
  case (2 m a b x y rs)
  then show ?case by (cases rs) auto
qed

lemma tiles_bounds:
  "tiles m a b rs \<Longrightarrow> (x, y) \<in> set rs \<Longrightarrow> a \<le> x \<and> x \<le> y \<and> y \<le> b \<and> y - x \<le> m"
  by (induction m a b rs rule: tiles.induct) auto

lemma tiles_union: "tiles m a b rs \<Longrightarrow> (\<Union>p\<in>set rs. {fst p..snd p}) = {a..b}"
proof (induction m a b rs rule: tiles.induct)
  case (1 m a b)
  then show ?case by simp
next
  case (2 m a b x y rs)
  then have "(\<Union>p\<in>set rs. {fst p..snd p}) = {y + 1..b}" by simp
  moreover have "{a..y} \<union> {y + 1..b} = {a..b}" using 2 by auto
  ultimately show ?case using 2 by simp
qed

lemma tiles_sorted: "tiles m a b rs \<Longrightarrow> sorted_wrt (\<lambda>p p'. snd p < fst p') rs"
proof (induction m a b rs rule: tiles.induct)
  case (1 m a b)
  then show ?case by simp
next
  case (2 m a b x y rs)
  then have "\<forall>p\<in>set rs. y < fst p" using tiles_bounds[of m "y + 1" b rs] by fastforce
  with 2 show ?case by simp
qed

lemma cqf_run_tiles:
  "cqf_run (traced c) to m start out st r st' \<Longrightarrow> 0 \<le> m \<Longrightarrow>
   \<exists>tr'. snd st' = snd st @ tr' \<and> (answered r \<longrightarrow> tiles m start to (okRanges tr'))"
proof (induction rule: cqf_run.induct)
  case (finished start to m out s)
  then show ?case by simp
next
  case (chunk_ok start to s m logs s1 out r s')
  from chunk_ok.IH chunk_ok.prems obtain tr' where
    a: "snd s' = snd s1 @ tr'" and b: "answered r \<longrightarrow> tiles m (min (start + m) to + 1) to (okRanges tr')"
    by blast
  from traced_snd[OF chunk_ok.hyps(2)]
  have "snd s' = snd s @ ((start, min (start + m) to, True) # tr')" using a by simp
  moreover have "answered r \<longrightarrow> tiles m start to (okRanges ((start, min (start + m) to, True) # tr'))"
    using b chunk_ok.hyps(1) chunk_ok.prems by auto
  ultimately show ?case by blast
next
  case (at_floor start to s m e s1 out)
  from traced_snd[OF at_floor.hyps(2)] show ?case by simp
next
  case (retry_failed start to s m e s1 e' s2 out)
  from retry_failed.prems have "0 \<le> m div 2" by simp
  with retry_failed.IH obtain tr' where "snd s2 = snd s1 @ tr'" by blast
  with traced_snd[OF retry_failed.hyps(2)] show ?case by simp
next
  case (retry_ok start to s m e s1 mo s2 out r s')
  define en where "en = min (start + m) to"
  have en: "start \<le> en" "en \<le> to" using retry_ok.hyps(1) retry_ok.prems by (auto simp: en_def)
  from retry_ok.prems have "0 \<le> m div 2" "m div 2 \<le> m" by simp_all
  with retry_ok.IH(1) obtain tr2 where
    a2: "snd s2 = snd s1 @ tr2" and b2: "tiles m start en (okRanges tr2)"
    unfolding en_def by (auto intro: tiles_mono)
  from retry_ok.IH(2) retry_ok.prems obtain tr' where
    a: "snd s' = snd s2 @ tr'" and b: "answered r \<longrightarrow> tiles m (en + 1) to (okRanges tr')"
    unfolding en_def by blast
  from traced_snd[OF retry_ok.hyps(2)] a2 a
  have "snd s' = snd s @ ((start, en, False) # tr2 @ tr')" by (simp add: en_def)
  moreover have "answered r \<longrightarrow> tiles m start to (okRanges ((start, en, False) # tr2 @ tr'))"
    using tiles_append[OF b2 en(1) en(2)] b by simp
  ultimately show ?case by blast
qed

text \<open>
  C1. For a span that is not negative (in particular for every positive span) and every
  source, \<open>chunkedQueryFilter\<close> returns; when it returns logs, the requests that were
  answered are in ascending order without overlap, cover exactly the blocks from
  \<open>from\<close> to \<open>to\<close>, and each spans at most \<open>maxSpan\<close>; when every request was
  answered, each request is \<open>(start, min (start + maxSpan) to)\<close>.
\<close>

theorem chunkedQueryFilter_covers:
  assumes "0 \<le> maxSpan"
  shows "\<exists>r s' tr. chunkedQueryFilter (traced c) from to maxSpan (s, []) = Some (r, s', tr) \<and>
     (answered r \<longrightarrow>
        sorted_wrt (\<lambda>p p'. snd p < fst p') (okRanges tr) \<and>
        (\<Union>p\<in>set (okRanges tr). {fst p..snd p}) = {from..to} \<and>
        (\<forall>p\<in>set (okRanges tr). fst p \<le> snd p \<and> snd p - fst p \<le> maxSpan)) \<and>
     ((\<forall>q\<in>set tr. snd (snd q)) \<longrightarrow> (\<forall>q\<in>set tr. fst (snd q) = min (fst q + maxSpan) to))"
proof -
  from cqf_run_total[OF assms, where c = "traced c" and to = to and start = "from"
      and out = "[]" and s = "(s, [])"]
  obtain r st' where
    run: "cqf_run (traced c) to maxSpan from [] (s, []) r st'" by blast
  obtain s' tr where st': "st' = (s', tr)" by (cases st')
  have eq: "chunkedQueryFilter (traced c) from to maxSpan (s, []) = Some (r, s', tr)"
    using cqf_run_sound[OF run] by (simp add: chunkedQueryFilter_def st')
  from cqf_run_tiles[OF run assms] have t: "answered r \<longrightarrow> tiles maxSpan from to (okRanges tr)"
    by (simp add: st')
  from cqf_run_all_answered[OF run]
  have all: "(\<forall>q\<in>set tr. snd (snd q)) \<longrightarrow> (\<forall>q\<in>set tr. fst (snd q) = min (fst q + maxSpan) to)"
    by (simp add: st')
  have "sorted_wrt (\<lambda>p p'. snd p < fst p') (okRanges tr) \<and>
        (\<Union>p\<in>set (okRanges tr). {fst p..snd p}) = {from..to} \<and>
        (\<forall>p\<in>set (okRanges tr). fst p \<le> snd p \<and> snd p - fst p \<le> maxSpan)" if "answered r"
  proof -
    from t that have tl: "tiles maxSpan from to (okRanges tr)" by simp
    have "\<forall>p\<in>set (okRanges tr). fst p \<le> snd p \<and> snd p - fst p \<le> maxSpan"
    proof
      fix p assume "p \<in> set (okRanges tr)"
      then have "(fst p, snd p) \<in> set (okRanges tr)" by simp
      from tiles_bounds[OF tl this] show "fst p \<le> snd p \<and> snd p - fst p \<le> maxSpan" by simp
    qed
    with tiles_sorted[OF tl] tiles_union[OF tl] show ?thesis by simp
  qed
  with eq all show ?thesis by blast
qed

theorem chunkedQueryFilter_covers_witness:
  "(0::int) \<le> 500 \<and>
   chunkedQueryFilter (traced (stateless (rangeSource 300 chain4))) 0 700 500 ((), [])
     = Some (Inr (take 3 chain4),
             (), [(0, 500, False), (0, 250, True), (251, 500, True), (501, 700, True)]) \<and>
   okRanges [(0, 500, False), (0, 250, True), (251, 500, True), (501, 700, True)]
     = [(0, 250), (251, 500), (501, 700)] \<and>
   sorted_wrt (\<lambda>p p'. snd p < fst p') [(0::int, 250::int), (251, 500), (501, 700)] \<and>
   (\<Union>p\<in>set [(0::int, 250::int), (251, 500), (501, 700)]. {fst p..snd p}) = {0..700} \<and>
   (0::int) \<le> 10 \<and>
   chunkedQueryFilter (traced (stateless (rangeSource 300 chain4))) 0 25 10 ((), [])
     = Some (Inr (take 1 chain4), (), [(0, 10, True), (11, 21, True), (22, 25, True)]) \<and>
   map (\<lambda>q. fst (snd q) = min (fst q + 10) 25) [(0::int, 10::int, True), (11, 21, True), (22, 25, True)]
     = [True, True, True]"
proof -
  have h: "(0::int) \<le> 500" "(0::int) \<le> 10" by simp_all
  have e: "chunkedQueryFilter (traced (stateless (rangeSource 300 chain4))) 0 700 500 ((), [])
     = Some (Inr (take 3 chain4),
             (), [(0, 500, False), (0, 250, True), (251, 500, True), (501, 700, True)])"
    and e2: "chunkedQueryFilter (traced (stateless (rangeSource 300 chain4))) 0 25 10 ((), [])
     = Some (Inr (take 1 chain4), (), [(0, 10, True), (11, 21, True), (22, 25, True)])"
    by code_simp+
  from chunkedQueryFilter_covers[OF h(1), of "stateless (rangeSource 300 chain4)" 0 700 "()"] e
  have "sorted_wrt (\<lambda>p p'. snd p < fst p') [(0::int, 250::int), (251, 500), (501, 700)] \<and>
   (\<Union>p\<in>set [(0::int, 250::int), (251, 500), (501, 700)]. {fst p..snd p}) = {0..700}"
    by simp
  moreover
  from chunkedQueryFilter_covers[OF h(2), of "stateless (rangeSource 300 chain4)" 0 25 "()"] e2
  have "map (\<lambda>q. fst (snd q) = min (fst q + 10) 25) [(0::int, 10::int, True), (11, 21, True), (22, 25, True)]
     = [True, True, True]"
    by simp
  ultimately show ?thesis using h e e2 by simp
qed

subsection \<open>A source with a range limit\<close>














subsection \<open>Texts and numbers\<close>

lemma of_char_digitChar: "d < 10 \<Longrightarrow> (of_char (digitChar d) :: nat) = 48 + d"
  by (simp add: digitChar_def)

lemma isDigit_digitChar: "d < 10 \<Longrightarrow> isDigit (digitChar d)"
  by (simp add: isDigit_def of_char_digitChar)

lemma digitsValue_snoc: "digitsValue (ds @ [c]) = 10 * digitsValue ds + (of_char c - 48)"
  by (simp add: digitsValue_def)

lemma decimal_props:
  "decimal n \<noteq> [] \<and> list_all isDigit (decimal n) \<and> digitsValue (decimal n) = n"
proof (induction n rule: decimal.induct)
  case (1 n)
  show ?case
  proof (cases "n < 10")
    case True
    then have "decimal n = [digitChar n]" by (subst decimal.simps) simp
    with True show ?thesis
      by (simp add: isDigit_digitChar digitsValue_def of_char_digitChar)
  next
    case False
    then have d: "decimal n = decimal (n div 10) @ [digitChar (n mod 10)]"
      by (subst decimal.simps) simp
    have "n mod 10 < 10" by simp
    with 1[OF False] d show ?thesis
      by (simp add: digitsValue_snoc isDigit_digitChar of_char_digitChar)
  qed
qed

lemma isDigit_not_sign: "isDigit c \<Longrightarrow> c \<noteq> CHR ''-'' \<and> c \<noteq> CHR ''+''"
  by (auto simp: isDigit_def)

lemma Number_String: "Number (String n) = Num n"
proof (cases "n < 0")
  case True
  with decimal_props[of "nat (- n)"] show ?thesis
    by (simp add: Number_def String_def)
next
  case False
  from decimal_props[of "nat n"] have
    ne: "decimal (nat n) \<noteq> []" and dg: "list_all isDigit (decimal (nat n))"
    and v: "digitsValue (decimal (nat n)) = nat n" by simp_all
  from ne dg have "isDigit (hd (decimal (nat n)))" by (cases "decimal (nat n)") simp_all
  from isDigit_not_sign[OF this] ne dg v False show ?thesis
    by (simp add: Number_def String_def)
qed

lemma String_not_empty: "String n \<noteq> []"
  using decimal_props[of "nat n"] by (simp add: String_def)

lemma baseFrom_manual: "manual \<noteq> [] \<Longrightarrow> baseFrom L manual item to = Number manual"
  by (simp add: baseFrom_def)

lemma baseFrom_saved:
  "n \<noteq> 0 \<Longrightarrow> baseFrom L [] (Some (String n)) to = Num n"
  by (simp add: baseFrom_def Number_String String_not_empty truthy_def)

lemma baseFrom_default:
  "item = None \<or> item = Some (String 0) \<Longrightarrow> baseFrom L [] item to = Num (max (to - L) 0)"
  by (auto simp: baseFrom_def Number_String truthy_def)

lemma baseFrom_zero:
  assumes "baseFrom L [] item to = Num 0"
  shows "to \<le> L"
proof -
  define saved where "saved = (case item of None \<Rightarrow> Num 0 | Some v \<Rightarrow> if v = [] then Num 0 else Number v)"
  show ?thesis
  proof (cases "truthy saved")
    case True
    with assms have "saved = Num 0" by (simp add: baseFrom_def saved_def)
    with True show ?thesis by (simp add: truthy_def)
  next
    case False
    with assms have "max (to - L) 0 = 0" by (simp add: baseFrom_def saved_def)
    then show ?thesis by simp
  qed
qed

subsection \<open>The outcomes of load\<close>

lemma cqf_returns: "0 \<le> m \<Longrightarrow> \<exists>r s'. chunkedQueryFilter c from to m s = Some (r, s')"
  using cqf_run_total[of m c to "from" "[]" s] cqf_run_sound[of c to m "from" "[]" s]
  by (auto simp: chunkedQueryFilter_def)


lemma single_request:
  assumes "from \<le> to" "to - from \<le> 9500" "q from to = Inr logs"
  shows "chunkedQueryFilter (traced (stateless q)) from to 9500 ((), tr)
           = Some (Inr logs, (), tr @ [(from, to, True)])"
proof -
  from assms(1,2) have en: "min (from + 9500) to = to" by simp
  have "traced (stateless q) ((), tr) from (min (from + 9500) to)
          = (Inr logs, ((), tr @ [(from, to, True)]))"
    using assms(3) by (simp add: traced_def stateless_def en)
  with assms(1) have "cqf_loop (traced (stateless q)) to 9500 from [] ((), tr)
      = cqf_loop (traced (stateless q)) to 9500 (min (from + 9500) to + 1) ([] @ logs)
          ((), tr @ [(from, to, True)])"
    by (rule cqf_ok)
  then show ?thesis
    by (simp add: chunkedQueryFilter_def en cqf_done)
qed

lemma load_absent:
  "engineR p = None \<or> readProvider p = None \<Longrightarrow> load L p ps rs w = Some w"
  by (auto simp: load_def split: prod.splits option.splits)

lemma load_head_fails:
  "engineR p = Some hf \<Longrightarrow> readProvider p = Some (Inl e) \<Longrightarrow>
   load L p ps rs (st, sp, sr) = Some (failed e (st\<lparr>loading := True, err := []\<rparr>), sp, sr)"
  by (simp add: load_def)

lemma load_no_filters:
  "engineR p = Some False \<Longrightarrow> readProvider p = Some (Inr to) \<Longrightarrow>
   load L p ps rs (st, sp, sr)
     = Some (failed (Error AbiMismatch ''Event filters missing (ABI mismatch?)'')
               (st\<lparr>loading := True, err := []\<rparr>), sp, sr)"
  by (simp add: load_def)

lemma load_nan:
  "engineR p = Some True \<Longrightarrow> readProvider p = Some (Inr to) \<Longrightarrow>
   baseFrom L (fromBlock st) (storage st) to = NaN \<Longrightarrow>
   load L p ps rs (st, sp, sr)
     = Some (completed (toLowerCase (provider p)) to [] [] (st\<lparr>loading := True, err := []\<rparr>), sp, sr)"
  by (simp add: load_def)

lemma load_queries:
  "engineR p = Some True \<Longrightarrow> readProvider p = Some (Inr to) \<Longrightarrow>
   baseFrom L (fromBlock st) (storage st) to = Num from \<Longrightarrow>
   chunkedQueryFilter ps from to 9500 sp = Some (rp, sp') \<Longrightarrow>
   chunkedQueryFilter rs from to 9500 sr = Some (rr, sr') \<Longrightarrow>
   load L p ps rs (st, sp, sr)
     = Some (case rp of
               Inl e \<Rightarrow> failed e (st\<lparr>loading := True, err := []\<rparr>)
             | Inr paidLogs \<Rightarrow>
                 (case rr of
                    Inl e \<Rightarrow> failed e (st\<lparr>loading := True, err := []\<rparr>)
                  | Inr rejLogs \<Rightarrow>
                      completed (toLowerCase (provider p)) to paidLogs rejLogs
                        (st\<lparr>loading := True, err := []\<rparr>)), sp', sr')"
  by (simp add: load_def split: sum.splits)

lemma load_cases:
  obtains
    (absent) "engineR p = None \<or> readProvider p = None"
      "load L p ps rs (st, sp, sr) = Some (st, sp, sr)"
  | (failure) e sp' sr' where
      "engineR p \<noteq> None" "readProvider p \<noteq> None"
      "load L p ps rs (st, sp, sr) = Some (failed e (st\<lparr>loading := True, err := []\<rparr>), sp', sr')"
  | (success) to paidLogs rejLogs sp' sr' where
      "engineR p = Some True" "readProvider p = Some (Inr to)"
      "load L p ps rs (st, sp, sr)
         = Some (completed (toLowerCase (provider p)) to paidLogs rejLogs
                   (st\<lparr>loading := True, err := []\<rparr>), sp', sr')"
      "(baseFrom L (fromBlock st) (storage st) to = NaN \<and> paidLogs = [] \<and> rejLogs = []
          \<and> sp' = sp \<and> sr' = sr)
       \<or> (\<exists>from. baseFrom L (fromBlock st) (storage st) to = Num from
             \<and> chunkedQueryFilter ps from to 9500 sp = Some (Inr paidLogs, sp')
             \<and> chunkedQueryFilter rs from to 9500 sr = Some (Inr rejLogs, sr'))"
proof (cases "engineR p = None \<or> readProvider p = None")
  case True
  show ?thesis by (rule absent[OF True load_absent[OF True]])
next
  case False
  then obtain hf g where p: "engineR p = Some hf" "readProvider p = Some g" by auto
  show ?thesis
  proof (cases g)
    case (Inl e)
    with p load_head_fails[of p hf e L ps rs st sp sr] show ?thesis
      by (intro failure[of e sp sr]) simp_all
  next
    case (Inr to)
    show ?thesis
    proof (cases hf)
      case False
      with p Inr load_no_filters[of p to L ps rs st sp sr] show ?thesis
        by (intro failure[of _ sp sr]) simp_all
    next
      case True
      note p' = p(1)[unfolded True eq_True] p(2)[unfolded Inr]
      show ?thesis
      proof (cases "baseFrom L (fromBlock st) (storage st) to")
        case NaN
        from load_nan[OF _ _ NaN, of p ps rs sp sr] p True Inr NaN show ?thesis
          by (intro success[of to "[]" "[]" sp sr]) simp_all
      next
        case (Num frm)
        obtain rp sp' where qp: "chunkedQueryFilter ps frm to 9500 sp = Some (rp, sp')"
          using cqf_returns[of 9500 ps frm to sp] by auto
        obtain rr sr' where qr: "chunkedQueryFilter rs frm to 9500 sr = Some (rr, sr')"
          using cqf_returns[of 9500 rs frm to sr] by auto
        have l: "load L p ps rs (st, sp, sr)
         = Some (case rp of
               Inl e \<Rightarrow> failed e (st\<lparr>loading := True, err := []\<rparr>)
             | Inr paidLogs \<Rightarrow>
                 (case rr of
                    Inl e \<Rightarrow> failed e (st\<lparr>loading := True, err := []\<rparr>)
                  | Inr rejLogs \<Rightarrow>
                      completed (toLowerCase (provider p)) to paidLogs rejLogs
                        (st\<lparr>loading := True, err := []\<rparr>)), sp', sr')"
          using p True Inr by (intro load_queries[OF _ _ Num qp qr]) simp_all
        show ?thesis
        proof (cases rp)
          case e: (Inl e)
          with l p show ?thesis by (intro failure[of e sp' sr']) simp_all
        next
          case pl: (Inr paidLogs)
          show ?thesis
          proof (cases rr)
            case e: (Inl e)
            with l pl p show ?thesis by (intro failure[of e sp' sr']) simp_all
          next
            case rl: (Inr rejLogs)
            with l pl p True Inr Num qp qr show ?thesis
              by (intro success[of to paidLogs rejLogs sp' sr']) simp_all
          qed
        qed
      qed
    qed
  qed
qed


lemma failed_simps [simp]:
  "err (failed e st) \<noteq> []" "storage (failed e st) = storage st" "items (failed e st) = items st"
  "fromBlock (failed e st) = fromBlock st" "loading (failed e st) = False"
  by (simp_all add: failed_def)

lemma completed_simps [simp]:
  "err (completed A to pl rl st) = err st"
  "storage (completed A to pl rl st) = Some (String (to + 1))"
  "items (completed A to pl rl st) = sortReverse (pushRejected A rl (pushPaid A pl []))"
  "fromBlock (completed A to pl rl st) = fromBlock st"
  by (simp_all add: completed_def)

text \<open>
  C3. The lower bound is the text of the box when it is not empty, else the stored
  cursor when it is the numeral of a number other than 0, else
  \<open>max (to - lookback) 0\<close> when nothing is stored. With nothing stored, an empty box
  and a look-back window of at most 9500 blocks, each source receives the single request
  \<open>(max (to - lookback) 0, to)\<close>, and when both are answered the scan succeeds and
  stores \<open>String (to + 1)\<close>: with the head 1000 and the window 200 the range is
  \<open>(800, 1000)\<close> and the cursor becomes \<open>1001\<close>.
\<close>

theorem lower_bound_precedence:
  "(manual \<noteq> [] \<longrightarrow> baseFrom L manual item to = Number manual) \<and>
   (n \<noteq> 0 \<longrightarrow> baseFrom L [] (Some (String n)) to = Num n) \<and>
   baseFrom L [] None to = Num (max (to - L) 0) \<and>
   (engineR p = Some True \<and> readProvider p = Some (Inr to) \<and> 0 \<le> to \<and> 0 \<le> L \<and> L \<le> 9500 \<and>
    fromBlock st = [] \<and> storage st = None \<and>
    pq (max (to - L) 0) to = Inr paidLogs \<and> rq (max (to - L) 0) to = Inr rejLogs \<longrightarrow>
      (\<exists>st'. load L p (traced (stateless pq)) (traced (stateless rq)) (st, ((), []), ((), []))
               = Some (st', ((), [(max (to - L) 0, to, True)]), ((), [(max (to - L) 0, to, True)]))
           \<and> err st' = [] \<and> storage st' = Some (String (to + 1))))"
proof (intro conjI impI)
  assume "manual \<noteq> []"
  then show "baseFrom L manual item to = Number manual" by (rule baseFrom_manual)
next
  assume "n \<noteq> 0"
  then show "baseFrom L [] (Some (String n)) to = Num n" by (rule baseFrom_saved)
next
  show "baseFrom L [] None to = Num (max (to - L) 0)" by (simp add: baseFrom_default)
next
  assume a: "engineR p = Some True \<and> readProvider p = Some (Inr to) \<and> 0 \<le> to \<and> 0 \<le> L \<and> L \<le> 9500 \<and>
    fromBlock st = [] \<and> storage st = None \<and>
    pq (max (to - L) 0) to = Inr paidLogs \<and> rq (max (to - L) 0) to = Inr rejLogs"
  define frm where "frm = max (to - L) 0"
  from a have b: "baseFrom L (fromBlock st) (storage st) to = Num frm"
    by (simp add: baseFrom_default frm_def)
  from a have r: "frm \<le> to" "to - frm \<le> 9500" by (auto simp: frm_def)
  from a have qp: "chunkedQueryFilter (traced (stateless pq)) frm to 9500 ((), [])
                     = Some (Inr paidLogs, (), [] @ [(frm, to, True)])"
    by (intro single_request[OF r]) (simp add: frm_def)
  from a have qr: "chunkedQueryFilter (traced (stateless rq)) frm to 9500 ((), [])
                     = Some (Inr rejLogs, (), [] @ [(frm, to, True)])"
    by (intro single_request[OF r]) (simp add: frm_def)
  from a load_queries[OF _ _ b qp qr]
  have "load L p (traced (stateless pq)) (traced (stateless rq)) (st, ((), []), ((), []))
          = Some (completed (toLowerCase (provider p)) to paidLogs rejLogs
                    (st\<lparr>loading := True, err := []\<rparr>), ((), [(frm, to, True)]), ((), [(frm, to, True)]))"
    by simp
  then show "\<exists>st'. load L p (traced (stateless pq)) (traced (stateless rq)) (st, ((), []), ((), []))
               = Some (st', ((), [(max (to - L) 0, to, True)]), ((), [(max (to - L) 0, to, True)]))
           \<and> err st' = [] \<and> storage st' = Some (String (to + 1))"
    by (simp add: frm_def)
qed

theorem lower_bound_precedence_witness:
  "''1200'' \<noteq> [] \<and> baseFrom 200 ''1200'' (Some ''900'') 1000 = Num 1200 \<and>
   (900::int) \<noteq> 0 \<and> String 900 = ''900'' \<and> baseFrom 200 [] (Some ''900'') 1000 = Num 900 \<and>
   baseFrom 200 [] None 1000 = Num 800 \<and>
   String (1000 + 1) = ''1001'' \<and>
   load 200 (portal ''0xABC'' 1000) (traced (stateless (rangeSource 10000 [])))
       (traced (stateless (rangeSource 10000 []))) (panel0, ((), []), ((), []))
     = Some (panel0\<lparr>storage := Some ''1001''\<rparr>, ((), [(800, 1000, True)]), ((), [(800, 1000, True)]))"
proof -
  have s: "String 900 = ''900''" "String (1000 + 1) = ''1001''" "Number ''1200'' = Num 1200"
    by code_simp+
  have e: "load 200 (portal ''0xABC'' 1000) (traced (stateless (rangeSource 10000 [])))
       (traced (stateless (rangeSource 10000 []))) (panel0, ((), []), ((), []))
     = Some (panel0\<lparr>storage := Some ''1001''\<rparr>, ((), [(800, 1000, True)]), ((), [(800, 1000, True)]))"
    by code_simp
  from lower_bound_precedence[of "''1200''" 200 "Some ''900''" 1000 900 "portal ''0xABC'' 1000" panel0
      "rangeSource 10000 []" "[]" "rangeSource 10000 []" "[]"] s e
  show ?thesis by simp
qed




text \<open>
  C5. \<open>load\<close> always returns; when it ends with an error message the stored cursor
  and the rows are those from before the call, and the cursor changes only in a call
  that ends without error, to \<open>String (to + 1)\<close> for the head \<open>to\<close> it read.
\<close>

theorem cursor_written_only_on_success:
  "\<exists>st' sp' sr'. load L p ps rs (st, sp, sr) = Some (st', sp', sr') \<and>
     (err st' \<noteq> [] \<longrightarrow> storage st' = storage st \<and> items st' = items st) \<and>
     (storage st' \<noteq> storage st \<longrightarrow>
        err st' = [] \<and> (\<exists>to. readProvider p = Some (Inr to) \<and> storage st' = Some (String (to + 1))))"
proof (cases rule: load_cases[of p L ps rs st sp sr])
  case absent
  then show ?thesis by simp
next
  case (failure e sp' sr')
  then show ?thesis by simp
next
  case (success to paidLogs rejLogs sp' sr')
  then show ?thesis by simp
qed

theorem cursor_written_only_on_success_witness:
  "load 9000 (portal ''0xABC'' 1000)
     (traced (stateless (unavailable (Error Connectivity ''network down''))))
     (traced (stateless (rangeSource 10000 [])))
     (panel0\<lparr>storage := Some ''500''\<rparr>, ((), []), ((), []))
   = Some (panel0\<lparr>storage := Some ''500'', err := ''network down''\<rparr>,
           ((), [(500, 1000, False), (500, 1000, False), (500, 1000, False), (500, 1000, False),
                 (500, 1000, False), (500, 796, False), (500, 648, False)]),
           ((), [(500, 1000, True)])) \<and>
   err (panel0\<lparr>storage := Some ''500'', err := ''network down''\<rparr>) \<noteq> [] \<and>
   storage (panel0\<lparr>storage := Some ''500'', err := ''network down''\<rparr>)
     = storage (panel0\<lparr>storage := Some ''500''\<rparr>) \<and>
   load 9000 (portal ''0xABC'' 1000)
     (traced (stateless (rangeSource 10000 [])))
     (traced (stateless (rangeSource 10000 [])))
     (panel0\<lparr>storage := Some ''500''\<rparr>, ((), []), ((), []))
   = Some (panel0\<lparr>storage := Some ''1001''\<rparr>, ((), [(500, 1000, True)]), ((), [(500, 1000, True)])) \<and>
   storage (panel0\<lparr>storage := Some ''1001''\<rparr>) \<noteq> storage (panel0\<lparr>storage := Some ''500''\<rparr>) \<and>
   err (panel0\<lparr>storage := Some ''1001''\<rparr>) = [] \<and>
   readProvider (portal ''0xABC'' 1000) = Some (Inr 1000) \<and> String (1000 + 1) = ''1001''"
proof -
  let ?st = "panel0\<lparr>storage := Some ''500''\<rparr>"
  have e: "load 9000 (portal ''0xABC'' 1000)
     (traced (stateless (unavailable (Error Connectivity ''network down''))))
     (traced (stateless (rangeSource 10000 [])))
     (?st, ((), []), ((), []))
   = Some (panel0\<lparr>storage := Some ''500'', err := ''network down''\<rparr>,
           ((), [(500, 1000, False), (500, 1000, False), (500, 1000, False), (500, 1000, False),
                 (500, 1000, False), (500, 796, False), (500, 648, False)]),
           ((), [(500, 1000, True)]))"
    and e2: "load 9000 (portal ''0xABC'' 1000)
     (traced (stateless (rangeSource 10000 [])))
     (traced (stateless (rangeSource 10000 [])))
     (?st, ((), []), ((), []))
   = Some (panel0\<lparr>storage := Some ''1001''\<rparr>, ((), [(500, 1000, True)]), ((), [(500, 1000, True)]))"
    and s: "String (1000 + 1) = ''1001''"
    by code_simp+
  have ne: "err (panel0\<lparr>storage := Some ''500'', err := ''network down''\<rparr>) \<noteq> []" by simp
  have ch: "storage (panel0\<lparr>storage := Some ''1001''\<rparr>) \<noteq> storage ?st" by simp
  from cursor_written_only_on_success[of 9000 "portal ''0xABC'' 1000"
      "traced (stateless (unavailable (Error Connectivity ''network down'')))"
      "traced (stateless (rangeSource 10000 []))" ?st "((), [])" "((), [])"] e ne
  have "storage (panel0\<lparr>storage := Some ''500'', err := ''network down''\<rparr>) = storage ?st"
    by simp
  moreover
  from cursor_written_only_on_success[of 9000 "portal ''0xABC'' 1000"
      "traced (stateless (rangeSource 10000 []))"
      "traced (stateless (rangeSource 10000 []))" ?st "((), [])" "((), [])"] e2 ch
  have "err (panel0\<lparr>storage := Some ''1001''\<rparr>) = [] \<and>
        readProvider (portal ''0xABC'' 1000) = Some (Inr 1000)"
    by (auto simp: portal_def)
  ultimately show ?thesis using e e2 s ne ch by simp
qed

subsection \<open>Scanning again\<close>




subsection \<open>The rows\<close>

lemma pushPaid_eq:
  "pushPaid (toLowerCase A) ls rows
     = rows @ map (\<lambda>l. paidRow l (the (args l))) (filter (matches A) ls)"
  by (induction ls arbitrary: rows) (auto simp: matches_def split: option.splits)

lemma pushRejected_eq:
  "pushRejected (toLowerCase A) ls rows
     = rows @ map (\<lambda>l. rejectedRow l (the (args l))) (filter (matches A) ls)"
  by (induction ls arbitrary: rows) (auto simp: matches_def split: option.splits)

lemma exclusive_rows [simp]: "exclusive (paidRow l a)" "exclusive (rejectedRow l' a')"
  by (simp_all add: exclusive_def paidRow_def rejectedRow_def)

lemma pushPaid_exclusive:
  "list_all exclusive rows \<Longrightarrow> list_all exclusive (pushPaid B ls rows)"
proof (induction ls arbitrary: rows)
  case Nil
  then show ?case by simp
next
  case (Cons l ls)
  show ?case
  proof (cases "args l")
    case None
    with Cons show ?thesis by simp
  next
    case (Some a)
    from Cons.prems have "list_all exclusive (rows @ [paidRow l a])" by simp
    from Cons.IH[OF this] Cons.IH[OF Cons.prems] Some show ?thesis by simp
  qed
qed

lemma pushRejected_exclusive:
  "list_all exclusive rows \<Longrightarrow> list_all exclusive (pushRejected B ls rows)"
proof (induction ls arbitrary: rows)
  case Nil
  then show ?case by simp
next
  case (Cons l ls)
  show ?case
  proof (cases "args l")
    case None
    with Cons show ?thesis by simp
  next
    case (Some a)
    from Cons.prems have "list_all exclusive (rows @ [rejectedRow l a])" by simp
    from Cons.IH[OF this] Cons.IH[OF Cons.prems] Some show ?thesis by simp
  qed
qed

lemma set_sortReverse [simp]: "set (sortReverse rows) = set rows"
  by (simp add: sortReverse_def)

lemma sortReverse_descending: "sorted_wrt (\<lambda>a b. block b \<le> block a) (sortReverse rows)"
proof -
  have "sorted (map block (sort_key block rows))" by (rule sorted_sort_key)
  then have "sorted_wrt (\<lambda>a b. block a \<le> block b) (sort_key block rows)"
    by (simp add: sorted_map)
  then show ?thesis by (simp add: sortReverse_def sorted_wrt_rev)
qed

lemma sortReverse_ties:
  "filter (\<lambda>r. block r = k) (sortReverse rows) = rev (filter (\<lambda>r. block r = k) rows)"
proof -
  have "filter (\<lambda>r. block r = k) (sort_key block rows) = filter (\<lambda>r. block r = k) rows"
    by (rule sort_key_stable)
  then have "rev (filter (\<lambda>r. block r = k) (sort_key block rows))
               = rev (filter (\<lambda>r. block r = k) rows)" by simp
  then show ?thesis by (simp only: sortReverse_def rev_filter)
qed

text \<open>
  C7. The presented rows are in descending order of block, they are the rows that
  were pushed, and the rows of one block appear in the reverse of the order in which
  they were pushed (an ascending stable sort, then a reversal); the rows of every
  successful \<open>load\<close> are presented so. Rows pushed at the blocks 5, 2, 9, 2 are
  presented at 9, 5, 2, 2.
\<close>

theorem presented_descending:
  "sorted_wrt (\<lambda>a b. block b \<le> block a) (sortReverse rows) \<and>
   mset (sortReverse rows) = mset rows \<and>
   (\<forall>k. filter (\<lambda>r. block r = k) (sortReverse rows) = rev (filter (\<lambda>r. block r = k) rows)) \<and>
   (\<exists>st' sp' sr'. load L p ps rs (st, sp, sr) = Some (st', sp', sr') \<and>
      (engineR p \<noteq> None \<and> readProvider p \<noteq> None \<and> err st' = [] \<longrightarrow>
         sorted_wrt (\<lambda>a b. block b \<le> block a) (items st')))"
proof -
  have "\<exists>st' sp' sr'. load L p ps rs (st, sp, sr) = Some (st', sp', sr') \<and>
      (engineR p \<noteq> None \<and> readProvider p \<noteq> None \<and> err st' = [] \<longrightarrow>
         sorted_wrt (\<lambda>a b. block b \<le> block a) (items st'))"
  proof (cases rule: load_cases[of p L ps rs st sp sr])
    case absent
    then show ?thesis by auto
  next
    case (failure e sp' sr')
    then show ?thesis by simp
  next
    case (success to paidLogs rejLogs sp' sr')
    then show ?thesis by (simp add: sortReverse_descending)
  qed
  moreover have "mset (sortReverse rows) = mset rows" by (simp add: sortReverse_def)
  ultimately show ?thesis using sortReverse_descending sortReverse_ties by blast
qed

theorem presented_descending_witness:
  "engineR (portal ''0xabc'' 1000) \<noteq> None \<and> readProvider (portal ''0xabc'' 1000) \<noteq> None \<and>
   err (fst (the (load 9000 (portal ''0xabc'' 1000) (stateless (rangeSource 10000 paidChain))
          (stateless (rangeSource 10000 rejectedChain)) (panel0, (), ())))) = [] \<and>
   map block (pushRejected ''0xabc'' rejectedChain (pushPaid ''0xabc'' paidChain [])) = [5, 2, 9, 2] \<and>
   map block (items (fst (the (load 9000 (portal ''0xabc'' 1000) (stateless (rangeSource 10000 paidChain))
          (stateless (rangeSource 10000 rejectedChain)) (panel0, (), ()))))) = [9, 5, 2, 2] \<and>
   map kind (items (fst (the (load 9000 (portal ''0xabc'' 1000) (stateless (rangeSource 10000 paidChain))
          (stateless (rangeSource 10000 rejectedChain)) (panel0, (), ()))))) = [Paid, Paid, Rejected, Paid] \<and>
   sorted_wrt (\<lambda>a b. block b \<le> block a)
     (items (fst (the (load 9000 (portal ''0xabc'' 1000) (stateless (rangeSource 10000 paidChain))
          (stateless (rangeSource 10000 rejectedChain)) (panel0, (), ())))))"
proof -
  let ?p = "portal ''0xabc'' 1000"
  let ?l = "load 9000 ?p (stateless (rangeSource 10000 paidChain))
          (stateless (rangeSource 10000 rejectedChain)) (panel0, (), ())"
  have p: "engineR ?p \<noteq> None" "readProvider ?p \<noteq> None" by (simp_all add: portal_def)
  have e: "err (fst (the ?l)) = []"
    and r: "map block (pushRejected ''0xabc'' rejectedChain (pushPaid ''0xabc'' paidChain [])) = [5, 2, 9, 2]"
    and b: "map block (items (fst (the ?l))) = [9, 5, 2, 2]"
    and k: "map kind (items (fst (the ?l))) = [Paid, Paid, Rejected, Paid]"
    by code_simp+
  from presented_descending[of "[]" 9000 ?p "stateless (rangeSource 10000 paidChain)"
      "stateless (rangeSource 10000 rejectedChain)" panel0 "()" "()"] p e
  have "sorted_wrt (\<lambda>a b. block b \<le> block a) (items (fst (the ?l)))" by auto
  with p e r b k show ?thesis by simp
qed

text \<open>
  C8. The rows of a successful \<open>load\<close> are exactly the rows of the logs the two
  queries returned whose provider equals the account up to case, whatever the sources
  returned.
\<close>

theorem account_post_filter:
  "pushRejected (toLowerCase A) rl (pushPaid (toLowerCase A) pl [])
     = map (\<lambda>l. paidRow l (the (args l))) (filter (matches A) pl)
       @ map (\<lambda>l. rejectedRow l (the (args l))) (filter (matches A) rl) \<and>
   (\<exists>st' sp' sr'. load L p ps rs (st, sp, sr) = Some (st', sp', sr') \<and>
     (engineR p \<noteq> None \<and> readProvider p \<noteq> None \<and> err st' = [] \<longrightarrow>
        (\<exists>to paidLogs rejLogs.
           readProvider p = Some (Inr to) \<and>
           ((baseFrom L (fromBlock st) (storage st) to = NaN \<and> paidLogs = [] \<and> rejLogs = [])
            \<or> (\<exists>from. baseFrom L (fromBlock st) (storage st) to = Num from
                  \<and> chunkedQueryFilter ps from to 9500 sp = Some (Inr paidLogs, sp')
                  \<and> chunkedQueryFilter rs from to 9500 sr = Some (Inr rejLogs, sr'))) \<and>
           items st' = sortReverse
             (map (\<lambda>l. paidRow l (the (args l))) (filter (matches (provider p)) paidLogs)
              @ map (\<lambda>l. rejectedRow l (the (args l))) (filter (matches (provider p)) rejLogs)))))"
proof (cases rule: load_cases[of p L ps rs st sp sr])
  case absent
  then show ?thesis by (auto simp: pushPaid_eq pushRejected_eq)
next
  case (failure e sp' sr')
  then show ?thesis by (simp add: pushPaid_eq pushRejected_eq)
next
  case (success to paidLogs rejLogs sp' sr')
  from success(4) have
    "(baseFrom L (fromBlock st) (storage st) to = NaN \<and> paidLogs = [] \<and> rejLogs = [])
       \<or> (\<exists>from. baseFrom L (fromBlock st) (storage st) to = Num from
             \<and> chunkedQueryFilter ps from to 9500 sp = Some (Inr paidLogs, sp')
             \<and> chunkedQueryFilter rs from to 9500 sr = Some (Inr rejLogs, sr'))" by blast
  moreover have "items (completed (toLowerCase (provider p)) to paidLogs rejLogs
                   (st\<lparr>loading := True, err := []\<rparr>))
     = sortReverse
             (map (\<lambda>l. paidRow l (the (args l))) (filter (matches (provider p)) paidLogs)
              @ map (\<lambda>l. rejectedRow l (the (args l))) (filter (matches (provider p)) rejLogs))"
    by (simp add: pushPaid_eq pushRejected_eq)
  ultimately show ?thesis using success(2,3) by (auto simp: pushPaid_eq pushRejected_eq)
qed

theorem account_post_filter_witness:
  "engineR (portal ''0xABC'' 1000) \<noteq> None \<and> readProvider (portal ''0xABC'' 1000) \<noteq> None \<and>
   err (fst (the (load 9000 (portal ''0xABC'' 1000) (stateless (rangeSource 10000 paidChain))
          (stateless (rangeSource 10000 rejectedChain)) (panel0, (), ())))) = [] \<and>
   map (provider_arg \<circ> the \<circ> args) paidChain = [''0xabc'', ''0xAbC'', ''0xdef'', ''0xabc''] \<and>
   map (provider_arg \<circ> the \<circ> args) (filter (matches ''0xABC'') paidChain) = [''0xabc'', ''0xAbC'', ''0xabc''] \<and>
   map (provider_arg \<circ> the \<circ> args) (filter (matches ''0xABC'') rejectedChain) = [''0xABC''] \<and>
   items (fst (the (load 9000 (portal ''0xABC'' 1000) (stateless (rangeSource 10000 paidChain))
          (stateless (rangeSource 10000 rejectedChain)) (panel0, (), ()))))
     = sortReverse
         (map (\<lambda>l. paidRow l (the (args l))) (filter (matches ''0xABC'') paidChain)
          @ map (\<lambda>l. rejectedRow l (the (args l))) (filter (matches ''0xABC'') rejectedChain)) \<and>
   map id_row (items (fst (the (load 9000 (portal ''0xABC'' 1000) (stateless (rangeSource 10000 paidChain))
          (stateless (rangeSource 10000 rejectedChain)) (panel0, (), ())))))
     = [''3'', ''1'', ''-'', ''2'']"
proof -
  let ?p = "portal ''0xABC'' 1000"
  let ?ps = "stateless (rangeSource 10000 paidChain)" and ?rs = "stateless (rangeSource 10000 rejectedChain)"
  let ?l = "load 9000 ?p ?ps ?rs (panel0, (), ())"
  have p: "engineR ?p \<noteq> None" "readProvider ?p \<noteq> None" "readProvider ?p = Some (Inr 1000)"
    "provider ?p = ''0xABC''"
    by (simp_all add: portal_def)
  have e: "err (fst (the ?l)) = []"
    and f: "map (provider_arg \<circ> the \<circ> args) paidChain = [''0xabc'', ''0xAbC'', ''0xdef'', ''0xabc'']"
      "map (provider_arg \<circ> the \<circ> args) (filter (matches ''0xABC'') paidChain) = [''0xabc'', ''0xAbC'', ''0xabc'']"
      "map (provider_arg \<circ> the \<circ> args) (filter (matches ''0xABC'') rejectedChain) = [''0xABC'']"
    and i: "map id_row (items (fst (the ?l))) = [''3'', ''1'', ''-'', ''2'']"
    and b: "baseFrom 9000 (fromBlock panel0) (storage panel0) 1000 = Num 0"
    and qp: "chunkedQueryFilter ?ps 0 1000 9500 () = Some (Inr paidChain, ())"
    and qr: "chunkedQueryFilter ?rs 0 1000 9500 () = Some (Inr rejectedChain, ())"
    by code_simp+
  from account_post_filter[where L = 9000 and p = ?p and ps = ?ps and rs = ?rs and st = panel0
      and sp = "()" and sr = "()" and A = "''0xABC''" and pl = paidChain and rl = rejectedChain]
    p e b qp qr
  have "items (fst (the ?l)) = sortReverse
         (map (\<lambda>l. paidRow l (the (args l))) (filter (matches ''0xABC'') paidChain)
          @ map (\<lambda>l. rejectedRow l (the (args l))) (filter (matches ''0xABC'') rejectedChain))"
    by auto
  with p e f i show ?thesis by simp
qed

text \<open>
  C9. Every row that \<open>load\<close> leaves in the panel has the fields of its kind and none
  of the other kind: a paid row has \<open>amount\<close> and \<open>visitIndex\<close> and no \<open>reason\<close>, a
  rejected row has \<open>reason\<close> and neither \<open>amount\<close> nor \<open>visitIndex\<close>.
\<close>

theorem rows_kind_exclusive:
  "list_all exclusive (pushRejected B rejLogs (pushPaid B paidLogs [])) \<and>
   (\<exists>st' sp' sr'. load L p ps rs (st, sp, sr) = Some (st', sp', sr') \<and>
     ((\<forall>r\<in>set (items st). exclusive r)
        \<or> (engineR p \<noteq> None \<and> readProvider p \<noteq> None \<and> err st' = [])
      \<longrightarrow> (\<forall>r\<in>set (items st'). exclusive r)))"
proof
  show pushed: "list_all exclusive (pushRejected B rejLogs (pushPaid B paidLogs []))"
    for B rejLogs paidLogs
    by (intro pushRejected_exclusive pushPaid_exclusive) simp
  show "\<exists>st' sp' sr'. load L p ps rs (st, sp, sr) = Some (st', sp', sr') \<and>
     ((\<forall>r\<in>set (items st). exclusive r)
        \<or> (engineR p \<noteq> None \<and> readProvider p \<noteq> None \<and> err st' = [])
      \<longrightarrow> (\<forall>r\<in>set (items st'). exclusive r))"
  proof (cases rule: load_cases[of p L ps rs st sp sr])
    case absent
    then show ?thesis by auto
  next
    case (failure e sp' sr')
    then show ?thesis by simp
  next
    case (success to paidLogs rejLogs sp' sr')
    from pushed[of "toLowerCase (provider p)" rejLogs paidLogs] success(3)
    show ?thesis by (simp add: list_all_iff)
  qed
qed

theorem rows_kind_exclusive_witness:
  "engineR (portal ''0xDEF'' 1000) \<noteq> None \<and> readProvider (portal ''0xDEF'' 1000) \<noteq> None \<and>
   err (fst (the (load 9000 (portal ''0xDEF'' 1000) (stateless (rangeSource 10000 paidChain))
          (stateless (rangeSource 10000 rejectedChain)) (panel0, (), ())))) = [] \<and>
   map kind (items (fst (the (load 9000 (portal ''0xDEF'' 1000) (stateless (rangeSource 10000 paidChain))
          (stateless (rangeSource 10000 rejectedChain)) (panel0, (), ()))))) = [Rejected, Paid] \<and>
   list_all exclusive (items (fst (the (load 9000 (portal ''0xDEF'' 1000)
          (stateless (rangeSource 10000 paidChain))
          (stateless (rangeSource 10000 rejectedChain)) (panel0, (), ())))))"
proof -
  let ?p = "portal ''0xDEF'' 1000"
  let ?l = "load 9000 ?p (stateless (rangeSource 10000 paidChain))
          (stateless (rangeSource 10000 rejectedChain)) (panel0, (), ())"
  have p: "engineR ?p \<noteq> None" "readProvider ?p \<noteq> None" by (simp_all add: portal_def)
  have e: "err (fst (the ?l)) = []" and k: "map kind (items (fst (the ?l))) = [Rejected, Paid]"
    by code_simp+
  from rows_kind_exclusive[where L = 9000 and p = ?p and ps = "stateless (rangeSource 10000 paidChain)"
      and rs = "stateless (rangeSource 10000 rejectedChain)" and st = panel0 and sp = "()"
      and sr = "()" and B = "''0xdef''" and rejLogs = rejectedChain and paidLogs = paidChain] p e
  have "\<forall>r\<in>set (items (fst (the ?l))). exclusive r" by auto
  with p e k show ?thesis by (simp add: list_all_iff)
qed

text \<open>
  C10. With an empty text box, a cursor that is absent or stored as 0 gives the
  default \<open>max (to - lookback) 0\<close>, and the lower bound is block 0 only when the head is
  within the look-back window; a text box that is not empty and reads as 0 gives block 0.
\<close>

theorem zero_lower_bound:
  "(item = None \<or> item = Some (String 0) \<longrightarrow> baseFrom L [] item to = Num (max (to - L) 0)) \<and>
   (manual \<noteq> [] \<and> Number manual = Num 0 \<longrightarrow> baseFrom L manual item to = Num 0) \<and>
   (baseFrom L [] item to = Num 0 \<longrightarrow> to \<le> L)"
  using baseFrom_default[of item L to] baseFrom_manual[of manual L item to] baseFrom_zero[of L item to]
  by auto

theorem zero_lower_bound_witness:
  "String 0 = ''0'' \<and> baseFrom 9000 [] (Some ''0'') 20000 = Num 11000 \<and>
   ''0'' \<noteq> [] \<and> Number ''0'' = Num 0 \<and> baseFrom 9000 ''0'' (Some ''777'') 20000 = Num 0 \<and>
   baseFrom 9000 [] None 5000 = Num 0 \<and> (5000::int) \<le> 9000"
proof -
  have s: "String 0 = ''0''" "Number ''0'' = Num 0" "baseFrom 9000 [] None 5000 = Num 0"
    by code_simp+
  from zero_lower_bound[of "Some ''0''" 9000 20000 "''0''"] s
  have "baseFrom 9000 [] (Some ''0'') 20000 = Num 11000" by simp
  moreover from zero_lower_bound[of "Some ''777''" 9000 20000 "''0''"] s
  have "baseFrom 9000 ''0'' (Some ''777'') 20000 = Num 0" by simp
  moreover from zero_lower_bound[of None 9000 5000 "''0''"] s
  have "(5000::int) \<le> 9000" by simp
  ultimately show ?thesis using s by simp
qed

text \<open>
  C10 does not hold for the text box: the text \<open>0\<close> is not empty, so it is used, and
  the scan starts at block 0 instead of \<open>max (to - lookback) 0\<close>.
\<close>

theorem override_zero_selects_block_zero:
  "Number ''0'' = Num 0 \<and> max (20000 - LOOKBACK) 0 = 11000 \<and>
   baseFrom LOOKBACK ''0'' None 20000 = Num 0 \<and>
   max (1000 - 200) 0 = (800::int) \<and>
   load 200 (portal ''0xABC'' 1000) (traced (stateless (rangeSource 10000 [])))
       (traced (stateless (rangeSource 10000 []))) (panel0\<lparr>fromBlock := ''0''\<rparr>, ((), []), ((), []))
     = Some (panel0\<lparr>fromBlock := ''0'', storage := Some ''1001''\<rparr>,
             ((), [(0, 1000, True)]), ((), [(0, 1000, True)]))"
  by code_simp

end
